theory Spec2Isabelle
  imports Complex_Main "HOL-Library.Multiset"
begin

section \<open>Values, exceptions and the environment of the scanner\<close>

text \<open>
  The scanner (\<^verbatim>\<open>src/scripts/network_scanner.py\<close>) builds its results out of Python
  dictionaries with string keys, lists, integers, strings and \<^verbatim>\<open>None\<close>. A dictionary is
  an association list in insertion order, so that a key that is present with the value
  \<^verbatim>\<open>None\<close> differs from a key that is absent. A character of a string stands for the
  code point of the same number: the strings of this model are those over the code points
  0 to 255.
\<close>

datatype pyval =
    PNone
  | PInt int
  | PStr string
  | PList "pyval list"
  | PDict "(string \<times> pyval) list"

text \<open>
  The exceptions that can leave the functions modelled here. \<^verbatim>\<open>socket.error\<close> is
  \<^verbatim>\<open>OSError\<close> and stands for all its subclasses (\<^verbatim>\<open>socket.timeout\<close>,
  \<^verbatim>\<open>socket.gaierror\<close>, \<^verbatim>\<open>ConnectionRefusedError\<close>, ...): the handler of
  \<^verbatim>\<open>scan_port\<close> does not tell them apart.
\<close>

datatype exn = socket_error | OverflowError | ValueError | TypeError | KeyError

text \<open>
  The socket library is the environment of \<^verbatim>\<open>scan_port\<close>. Two of its calls can raise:
  \<^verbatim>\<open>sock.settimeout(timeout)\<close> and \<^verbatim>\<open>sock.connect_ex((host, port))\<close>; the second one
  returns the error number of the connection attempt, 0 on success. What \<^verbatim>\<open>connect_ex\<close>
  does depends on the timeout of the socket, which is its first argument here.
\<close>

record socket_api =
  settimeout :: "real \<Rightarrow> exn option"
  connect_ex :: "real \<Rightarrow> string \<Rightarrow> int \<Rightarrow> exn + int"

text \<open>
  What the library leaves to the machine and the network: the largest timeout that the
  time type of the platform holds, the hosts whose text can be turned into a host name
  (one with a NUL character cannot), the hosts that resolve to an address, and the error
  number of a connection attempt, given the timeout of the socket.
\<close>

record platform =
  max_timeout :: real
  host_encodes :: "string \<Rightarrow> bool"
  host_resolves :: "string \<Rightarrow> bool"
  connect :: "real \<Rightarrow> string \<Rightarrow> int \<Rightarrow> int"

text \<open>
  CPython's socket calls on a platform. \<^verbatim>\<open>settimeout\<close> raises \<^verbatim>\<open>ValueError\<close> for a negative
  timeout and \<^verbatim>\<open>OverflowError\<close> for one beyond the time type. \<^verbatim>\<open>connect_ex\<close> reads its
  arguments before it touches the network, in this order: a host that cannot be encoded
  raises \<^verbatim>\<open>TypeError\<close>; a port that is no C \<^verbatim>\<open>int\<close> raises \<^verbatim>\<open>OverflowError\<close>; a host that
  does not resolve raises \<^verbatim>\<open>socket.gaierror\<close>, which is a \<^verbatim>\<open>socket.error\<close>; a port
  outside 0..65535 raises \<^verbatim>\<open>OverflowError\<close> (\<^verbatim>\<open>connect_ex(): port must be 0-65535.\<close>).
  Only then is the connection attempted, and its error number returned.
\<close>

definition cpython_sockets :: "platform \<Rightarrow> socket_api" where
  "cpython_sockets p =
     \<lparr> settimeout = (\<lambda>t.
         if t < 0 then Some ValueError
         else if max_timeout p < t then Some OverflowError
         else None),
       connect_ex = (\<lambda>t host port.
         if \<not> host_encodes p host then Inl TypeError
         else if port < - (2 ^ 31) \<or> 2 ^ 31 \<le> port then Inl OverflowError
         else if \<not> host_resolves p host then Inl socket_error
         else if port < 0 \<or> 65535 < port then Inl OverflowError
         else Inr (connect p t host port)) \<rparr>"

section \<open>The service catalog\<close>

text \<open>\<^verbatim>\<open>COMMON_PORTS\<close>, lines 30 to 47, in the order the dictionary literal lists its keys.\<close>

definition COMMON_PORTS :: "(int \<times> string) list" where
  "COMMON_PORTS =
     [(21, ''FTP''), (22, ''SSH''), (23, ''Telnet''), (25, ''SMTP''), (53, ''DNS''),
      (80, ''HTTP''), (110, ''POP3''), (143, ''IMAP''), (443, ''HTTPS''), (445, ''SMB''),
      (993, ''IMAPS''), (995, ''POP3S''), (3306, ''MySQL''), (3389, ''RDP''),
      (5432, ''PostgreSQL''), (8080, ''HTTP-Proxy'')]"

text \<open>\<^verbatim>\<open>d.get(key, default)\<close> and \<^verbatim>\<open>list(d.keys())\<close>.\<close>

definition dict_get :: "('k \<times> 'v) list \<Rightarrow> 'k \<Rightarrow> 'v \<Rightarrow> 'v" where
  "dict_get d k dflt = (case map_of d k of None \<Rightarrow> dflt | Some v \<Rightarrow> v)"

definition keys :: "('k \<times> 'v) list \<Rightarrow> 'k list" where
  "keys d = map fst d"

text \<open>\<^verbatim>\<open>d[key]\<close> on a value: \<^verbatim>\<open>KeyError\<close> on a missing key.\<close>

fun getitem :: "pyval \<Rightarrow> string \<Rightarrow> exn + pyval" where
  "getitem (PDict d) k = (case map_of d k of None \<Rightarrow> Inl KeyError | Some v \<Rightarrow> Inr v)"
| "getitem _ k = Inl TypeError"

section \<open>The port prober\<close>

text \<open>
  \<^verbatim>\<open>scan_port\<close>, lines 59 to 87. The \<^verbatim>\<open>try\<close> block covers the socket calls; its handler
  catches \<^verbatim>\<open>socket.error\<close> only, and every other exception leaves the function.
\<close>

definition closed_outcome :: "int \<Rightarrow> pyval" where
  "closed_outcome port =
     PDict [(''port'', PInt port), (''status'', PStr ''closed''), (''service'', PNone)]"

definition open_outcome :: "int \<Rightarrow> pyval" where
  "open_outcome port =
     PDict [(''port'', PInt port), (''status'', PStr ''open''),
            (''service'', PStr (dict_get COMMON_PORTS port ''Unknown''))]"

definition scan_port :: "socket_api \<Rightarrow> string \<Rightarrow> int \<Rightarrow> real \<Rightarrow> exn + pyval" where
  "scan_port api host port timeout =
     (case settimeout api timeout of
        Some e \<Rightarrow> if e = socket_error then Inr (closed_outcome port) else Inl e
      | None \<Rightarrow>
          (case connect_ex api timeout host port of
             Inl e \<Rightarrow> if e = socket_error then Inr (closed_outcome port) else Inl e
           | Inr result \<Rightarrow>
               if result = 0 then Inr (open_outcome port)
               else Inr (closed_outcome port)))"

section \<open>The scan orchestrator\<close>

text \<open>
  The \<^verbatim>\<open>results\<close> dictionary of \<^verbatim>\<open>scan_host\<close> has the same four keys from its creation to
  its return, so it is a record here; \<open>results_dict\<close> gives it back as the dictionary that
  \<^verbatim>\<open>json.dump\<close> receives.
\<close>

record scan_results =
  host :: string
  scan_time :: string
  open_ports :: "pyval list"
  closed_ports :: int

definition results_dict :: "scan_results \<Rightarrow> pyval" where
  "results_dict r =
     PDict [(''host'', PStr (host r)), (''scan_time'', PStr (scan_time r)),
            (''open_ports'', PList (open_ports r)), (''closed_ports'', PInt (closed_ports r))]"

text \<open>
  The loop of lines 117 to 123. \<open>futs\<close> holds, for each submitted probe, what
  \<^verbatim>\<open>future.result()\<close> gives: the outcome, or the exception of the probe, raised again.
  \<open>order\<close> is the order in which \<^verbatim>\<open>as_completed\<close> yields the futures, as indices into the
  submissions; it is any permutation of them.
\<close>

fun collect :: "(exn + pyval) list \<Rightarrow> nat list \<Rightarrow> scan_results \<Rightarrow> exn + scan_results" where
  "collect futs [] results = Inr results"
| "collect futs (i # order) results =
     (case futs ! i of
        Inl e \<Rightarrow> Inl e
      | Inr result \<Rightarrow>
          (case getitem result ''status'' of
             Inl e \<Rightarrow> Inl e
           | Inr st \<Rightarrow>
               if st = PStr ''open''
               then collect futs order (results\<lparr>open_ports := open_ports results @ [result]\<rparr>)
               else collect futs order (results\<lparr>closed_ports := closed_ports results + 1\<rparr>)))"

text \<open>
  Modelled from the spec: the constructor of the worker pool, which is the standard
  library's and not part of the sources; \<^verbatim>\<open>scan_host\<close> has no check of the pool size of
  its own. Section 4.4 has a pool size of 0 or less fail before scanning starts:
  \<^verbatim>\<open>ThreadPoolExecutor(max_workers=threads)\<close> raises \<^verbatim>\<open>ValueError\<close>
  (\<^verbatim>\<open>max_workers must be greater than 0\<close>) when \<open>threads \<le> 0\<close>.
\<close>

definition ThreadPoolExecutor :: "int \<Rightarrow> exn + nat" where
  "ThreadPoolExecutor max_workers =
     (if max_workers \<le> 0 then Inl ValueError else Inr (nat max_workers))"

text \<open>
  \<^verbatim>\<open>scan_host\<close>, lines 89 to 125. \<open>now\<close> is \<^verbatim>\<open>datetime.now().isoformat()\<close>. The first
  component of the result lists the ports for which a probe was submitted to the pool,
  in submission order; the second is the returned dictionary or the exception that
  leaves the function. Every probe runs with the default timeout of \<^verbatim>\<open>scan_port\<close>.
\<close>

definition resolved_ports :: "int list option \<Rightarrow> int list" where
  "resolved_ports ports = (case ports of None \<Rightarrow> keys COMMON_PORTS | Some ps \<Rightarrow> ps)"

definition scan_host ::
  "socket_api \<Rightarrow> string \<Rightarrow> nat list \<Rightarrow> string \<Rightarrow> int list option \<Rightarrow> int
     \<Rightarrow> int list \<times> (exn + scan_results)" where
  "scan_host api now order hst ports threads =
     (let ports' = resolved_ports ports;
          results = \<lparr> host = hst, scan_time = now, open_ports = [], closed_ports = 0 \<rparr>
      in case ThreadPoolExecutor threads of
           Inl e \<Rightarrow> ([], Inl e)
         | Inr executor \<Rightarrow>
             (ports', collect (map (\<lambda>port. scan_port api hst port 1) ports') order results))"

section \<open>The port specification\<close>

text \<open>
  \<^verbatim>\<open>s.split(sep)\<close> for a separator of one character: the pieces between the separators,
  empty pieces included, so a string with \<open>n\<close> separators has \<open>n + 1\<close> pieces.
\<close>

fun split_from :: "char \<Rightarrow> string \<Rightarrow> string \<Rightarrow> string list" where
  "split_from sep cur [] = [cur]"
| "split_from sep cur (c # cs) =
     (if c = sep then cur # split_from sep [] cs else split_from sep (cur @ [c]) cs)"

definition str_split :: "string \<Rightarrow> char \<Rightarrow> string list" where
  "str_split s sep = split_from sep [] s"

text \<open>
  \<^verbatim>\<open>int(s)\<close>: surrounding whitespace is dropped, one sign is allowed, then decimal digits,
  where single underscores may stand between two digits. \<open>None\<close> is the \<^verbatim>\<open>ValueError\<close> of
  a string that is no such literal. Among the code points 0 to 255 the whitespace that
  \<^verbatim>\<open>int\<close> drops is the tab, the line feed, the vertical tab, the form feed, the carriage
  return, the space, the next-line character and the no-break space (the separators 28
  to 31 are not dropped), and the decimal digits are \<^verbatim>\<open>0\<close> to \<^verbatim>\<open>9\<close>. A literal of more than
  \<^verbatim>\<open>sys.get_int_max_str_digits()\<close> digits, 4300 unless the interpreter is told otherwise,
  raises \<^verbatim>\<open>ValueError\<close> as well; leading zeros count, underscores do not.
\<close>

definition is_space :: "char \<Rightarrow> bool" where
  "is_space c = (of_char c \<in> {9, 10, 11, 12, 13, 32, 133, 160 :: nat})"

definition int_max_str_digits :: nat where
  "int_max_str_digits = 4300"

definition is_digit :: "char \<Rightarrow> bool" where
  "is_digit c = (48 \<le> (of_char c :: nat) \<and> (of_char c :: nat) \<le> 57)"

definition digit_value :: "char \<Rightarrow> int" where
  "digit_value c = int (of_char c) - 48"

definition strip :: "string \<Rightarrow> string" where
  "strip s = rev (dropWhile is_space (rev (dropWhile is_space s)))"

fun more_digits :: "int \<Rightarrow> string \<Rightarrow> int option" where
  "more_digits acc [] = Some acc"
| "more_digits acc (c # cs) =
     (if is_digit c then more_digits (acc * 10 + digit_value c) cs
      else if c = CHR ''_'' then
        (case cs of
           [] \<Rightarrow> None
         | d # ds \<Rightarrow> if is_digit d then more_digits (acc * 10 + digit_value d) ds else None)
      else None)"

definition decimal :: "string \<Rightarrow> int option" where
  "decimal s =
     (case s of
        [] \<Rightarrow> None
      | c # cs \<Rightarrow>
          if is_digit c then
            (case more_digits (digit_value c) cs of
               None \<Rightarrow> None
             | Some n \<Rightarrow>
                 if int_max_str_digits < length (filter is_digit s) then None else Some n)
          else None)"

definition py_int :: "string \<Rightarrow> int option" where
  "py_int s =
     (case strip s of
        [] \<Rightarrow> None
      | c # cs \<Rightarrow>
          if c = CHR ''-'' then map_option uminus (decimal cs)
          else if c = CHR ''+'' then decimal cs
          else decimal (c # cs))"

text \<open>
  \<^verbatim>\<open>list(range(start, stop))\<close>. A range of more than \<^verbatim>\<open>sys.maxsize\<close> numbers (the largest
  \<^verbatim>\<open>ssize_t\<close>, here that of a 64-bit build) has no length, and the list raises
  \<^verbatim>\<open>OverflowError\<close>. A shorter list that the memory of the machine cannot hold raises
  \<^verbatim>\<open>MemoryError\<close>; where that happens depends on the machine and is not modelled, so the
  statements below speak of short ranges only.
\<close>

definition maxsize :: int where
  "maxsize = 2 ^ 63 - 1"

definition py_range :: "int \<Rightarrow> int \<Rightarrow> exn + int list" where
  "py_range start stop =
     (if maxsize < stop - start then Inl OverflowError else Inr [start..stop - 1])"

text \<open>
  Lines 175 to 181 of \<^verbatim>\<open>main\<close>. \<^verbatim>\<open>args.ports\<close> is \<^verbatim>\<open>None\<close> when the option is not
  given; an empty string is false as well. In \<^verbatim>\<open>start, end = map(int, ...)\<close> a piece that
  is no integer and a number of pieces other than two both raise \<^verbatim>\<open>ValueError\<close>, and so
  does a piece of a comma list that is no integer. An exception of
  \<^verbatim>\<open>list(range(start, end + 1))\<close> leaves \<^verbatim>\<open>main\<close> as well.
\<close>

definition parse_ports :: "string option \<Rightarrow> exn + int list option" where
  "parse_ports arg =
     (case arg of
        None \<Rightarrow> Inr None
      | Some s \<Rightarrow>
          if s = [] then Inr None
          else if CHR ''-'' \<in> set s then
            (case map py_int (str_split s CHR ''-'') of
               [Some start, Some stop] \<Rightarrow>
                 (case py_range start (stop + 1) of
                    Inl e \<Rightarrow> Inl e
                  | Inr ps \<Rightarrow> Inr (Some ps))
             | _ \<Rightarrow> Inl ValueError)
          else
            (case those (map py_int (str_split s CHR '','')) of
               None \<Rightarrow> Inl ValueError
             | Some ps \<Rightarrow> Inr (Some ps)))"

text \<open>
  \<^verbatim>\<open>main\<close>, lines 174 to 184: the port specification is parsed, then the scan runs. The
  result has the shape of the result of \<open>scan_host\<close>.
\<close>

definition main ::
  "socket_api \<Rightarrow> string \<Rightarrow> nat list \<Rightarrow> string \<Rightarrow> string option \<Rightarrow> int
     \<Rightarrow> int list \<times> (exn + scan_results)" where
  "main api now order target ports_arg threads =
     (case parse_ports ports_arg of
        Inl e \<Rightarrow> ([], Inl e)
      | Inr ports \<Rightarrow> scan_host api now order target ports threads)"

section \<open>The persisted report\<close>

text \<open>
  Modelled from the spec: the serializer of section 4.5 and its inverse. The repository
  has neither of its own: \<^verbatim>\<open>main\<close> (lines 190 to 192) hands the results dictionary to
  \<^verbatim>\<open>json.dump(results, f, indent=2)\<close> of the standard library, whose code is not part of
  the sources, and nothing in the repository reads a report back. The persisted format is
  the JSON text that this call writes; the definitions below follow the encoder and the
  decoder of the \<^verbatim>\<open>json\<close> module on the values a report is made of (\<^verbatim>\<open>None\<close>, integers,
  strings, lists, dictionaries with string keys). A character stands for the code point of
  the same number, so the strings of this model are those over the code points 0 to 255.
\<close>

text \<open>
  Modelled from the spec: the string encoder (\<^verbatim>\<open>ensure_ascii\<close> is on): a quotation mark, a
  backslash and every character outside the range from the space to the tilde are
  escaped, the seven short escapes first, \<^verbatim>\<open>\u00xx\<close> with lowercase digits otherwise.
\<close>

definition quote :: char where "quote = CHR 0x22"
definition backslash :: char where "backslash = CHR 0x5C"

definition hex_digit :: "nat \<Rightarrow> char" where
  "hex_digit n = (if n < 10 then char_of (48 + n) else char_of (87 + n))"

definition escape_char :: "char \<Rightarrow> string" where
  "escape_char c =
     (if c = quote then [backslash, quote]
      else if c = backslash then [backslash, backslash]
      else if c = CHR 0x0A then [backslash, CHR ''n'']
      else if c = CHR 0x0D then [backslash, CHR ''r'']
      else if c = CHR 0x09 then [backslash, CHR ''t'']
      else if c = CHR 0x08 then [backslash, CHR ''b'']
      else if c = CHR 0x0C then [backslash, CHR ''f'']
      else if 32 \<le> (of_char c :: nat) \<and> (of_char c :: nat) \<le> 126 then [c]
      else [backslash, CHR ''u'', CHR ''0'', CHR ''0'',
            hex_digit (of_char c div 16), hex_digit (of_char c mod 16)])"

definition encode_basestring_ascii :: "string \<Rightarrow> string" where
  "encode_basestring_ascii s = quote # concat (map escape_char s) @ [quote]"

text \<open>Modelled from the spec: the decimal text of an integer, as \<^verbatim>\<open>int.__repr__\<close> gives it.\<close>

fun digits_of :: "nat \<Rightarrow> string" where
  "digits_of n =
     (if n < 10 then [char_of (48 + n)] else digits_of (n div 10) @ [char_of (48 + n mod 10)])"

declare digits_of.simps [simp del]

definition int_repr :: "int \<Rightarrow> string" where
  "int_repr i = (if i < 0 then CHR ''-'' # digits_of (nat (- i)) else digits_of (nat i))"

text \<open>
  Modelled from the spec: the encoder for \<^verbatim>\<open>indent=2\<close>. An empty list or dictionary is
  written without a line break; the items of any other stand on lines of their own, two
  spaces deeper than the brackets, separated by a comma at the end of the line, a key and
  its value by a colon and a space.
\<close>

definition newline_indent :: "nat \<Rightarrow> string" where
  "newline_indent level = CHR 0x0A # replicate (2 * level) CHR '' ''"

fun iterencode :: "nat \<Rightarrow> pyval \<Rightarrow> string"
and iterencode_items :: "nat \<Rightarrow> pyval list \<Rightarrow> string"
and iterencode_pairs :: "nat \<Rightarrow> (string \<times> pyval) list \<Rightarrow> string" where
  "iterencode level PNone = ''null''"
| "iterencode level (PInt i) = int_repr i"
| "iterencode level (PStr s) = encode_basestring_ascii s"
| "iterencode level (PList []) = ''[]''"
| "iterencode level (PList (x # xs)) =
     ''['' @ newline_indent (level + 1) @ iterencode (level + 1) x
       @ iterencode_items (level + 1) xs @ newline_indent level @ '']''"
| "iterencode level (PDict []) = ''{}''"
| "iterencode level (PDict ((k, v) # kvs)) =
     ''{'' @ newline_indent (level + 1) @ encode_basestring_ascii k @ '': ''
       @ iterencode (level + 1) v
       @ iterencode_pairs (level + 1) kvs @ newline_indent level @ ''}''"
| "iterencode_items level [] = []"
| "iterencode_items level (x # xs) =
     '','' @ newline_indent level @ iterencode level x @ iterencode_items level xs"
| "iterencode_pairs level [] = []"
| "iterencode_pairs level ((k, v) # kvs) =
     '','' @ newline_indent level @ encode_basestring_ascii k @ '': ''
       @ iterencode level v @ iterencode_pairs level kvs"

definition json_dumps :: "pyval \<Rightarrow> string" where
  "json_dumps v = iterencode 0 v"

text \<open>
  Modelled from the spec: the string scanner of the decoder, started after the opening
  quotation mark. It is strict: a control character inside a string is an error. An
  escape \<^verbatim>\<open>\uXXXX\<close> beyond code point 255 has no string in this model and is an error
  here.
\<close>

definition is_ws :: "char \<Rightarrow> bool" where
  "is_ws c = (c = CHR '' '' \<or> c = CHR 0x09 \<or> c = CHR 0x0A \<or> c = CHR 0x0D)"

definition skip_ws :: "string \<Rightarrow> string" where
  "skip_ws s = dropWhile is_ws s"

definition hex_value :: "char \<Rightarrow> nat option" where
  "hex_value c =
     (let k = of_char c :: nat in
      if 48 \<le> k \<and> k \<le> 57 then Some (k - 48)
      else if 97 \<le> k \<and> k \<le> 102 then Some (k - 87)
      else if 65 \<le> k \<and> k \<le> 70 then Some (k - 55)
      else None)"

definition decode_uXXXX :: "char \<Rightarrow> char \<Rightarrow> char \<Rightarrow> char \<Rightarrow> nat option" where
  "decode_uXXXX a b c d =
     (case (hex_value a, hex_value b, hex_value c, hex_value d) of
        (Some x, Some y, Some z, Some w) \<Rightarrow> Some (((x * 16 + y) * 16 + z) * 16 + w)
      | _ \<Rightarrow> None)"

definition BACKSLASH :: "char \<Rightarrow> char option" where
  "BACKSLASH e =
     (if e = quote then Some quote
      else if e = backslash then Some backslash
      else if e = CHR ''/'' then Some CHR ''/''
      else if e = CHR ''b'' then Some (CHR 0x08)
      else if e = CHR ''f'' then Some (CHR 0x0C)
      else if e = CHR ''n'' then Some (CHR 0x0A)
      else if e = CHR ''r'' then Some (CHR 0x0D)
      else if e = CHR ''t'' then Some (CHR 0x09)
      else None)"

definition prepend :: "'a \<Rightarrow> ('a list \<times> 'b) option \<Rightarrow> ('a list \<times> 'b) option" where
  "prepend x r = map_option (\<lambda>(xs, rest). (x # xs, rest)) r"

fun scanstring :: "string \<Rightarrow> (string \<times> string) option" where
  "scanstring [] = None"
| "scanstring (c # cs) =
     (if c = quote then Some ([], cs)
      else if c = backslash then
        (case cs of
           [] \<Rightarrow> None
         | e # es \<Rightarrow>
             if e = CHR ''u'' then
               (case es of
                  h1 # h2 # h3 # h4 # rest \<Rightarrow>
                    (case decode_uXXXX h1 h2 h3 h4 of
                       None \<Rightarrow> None
                     | Some n \<Rightarrow> if n < 256 then prepend (char_of n) (scanstring rest) else None)
                | _ \<Rightarrow> None)
             else
               (case BACKSLASH e of
                  None \<Rightarrow> None
                | Some ch \<Rightarrow> prepend ch (scanstring es)))
      else if (of_char c :: nat) < 32 then None
      else prepend c (scanstring cs))"

text \<open>
  Modelled from the spec: the number scanner. An integer is an optional minus sign, then a
  single zero or a digit string without a leading zero. With a fraction or an exponent
  behind it the number is a float, which is no value of this model (\<open>None\<close>).
\<close>

definition nat_of_digits :: "string \<Rightarrow> nat" where
  "nat_of_digits ds = foldl (\<lambda>a c. 10 * a + (of_char c - 48)) 0 ds"

definition has_frac :: "string \<Rightarrow> bool" where
  "has_frac rest = (case rest of c # d # _ \<Rightarrow> c = CHR ''.'' \<and> is_digit d | _ \<Rightarrow> False)"

definition has_exp :: "string \<Rightarrow> bool" where
  "has_exp rest =
     (case rest of
        [] \<Rightarrow> False
      | c # cs \<Rightarrow>
          (c = CHR ''e'' \<or> c = CHR ''E'') \<and>
          (case cs of
             [] \<Rightarrow> False
           | d # ds \<Rightarrow>
               is_digit d \<or>
               ((d = CHR ''+'' \<or> d = CHR ''-'') \<and> (case ds of [] \<Rightarrow> False | x # _ \<Rightarrow> is_digit x))))"

definition match_integer :: "string \<Rightarrow> (nat \<times> string) option" where
  "match_integer s =
     (case s of
        [] \<Rightarrow> None
      | c # cs \<Rightarrow>
          if c = CHR ''0'' then Some (0, cs)
          else if is_digit c
          then Some (nat_of_digits (c # takeWhile is_digit cs), dropWhile is_digit cs)
          else None)"

definition match_number :: "string \<Rightarrow> (int \<times> string) option" where
  "match_number s =
     (case (case s of
              [] \<Rightarrow> None
            | c # cs \<Rightarrow>
                if c = CHR ''-'' then map_option (\<lambda>(n, rest). (- int n, rest)) (match_integer cs)
                else map_option (\<lambda>(n, rest). (int n, rest)) (match_integer s)) of
        None \<Rightarrow> None
      | Some (i, rest) \<Rightarrow> if has_frac rest \<or> has_exp rest then None else Some (i, rest))"

text \<open>
  Modelled from the spec: \<^verbatim>\<open>dict(pairs)\<close>, the dictionary of the pairs of an object. A key
  that comes again keeps its place and takes the later value.
\<close>

fun setitem :: "('k \<times> 'v) list \<Rightarrow> 'k \<Rightarrow> 'v \<Rightarrow> ('k \<times> 'v) list" where
  "setitem [] k v = [(k, v)]"
| "setitem ((k', v') # d) k v = (if k' = k then (k', v) # d else (k', v') # setitem d k v)"

definition dict_of_pairs :: "('k \<times> 'v) list \<Rightarrow> ('k \<times> 'v) list" where
  "dict_of_pairs pairs = foldl (\<lambda>d (k, v). setitem d k v) [] pairs"

text \<open>
  Modelled from the spec: the decoder. \<open>scan_once\<close> reads one value, \<open>array_values\<close> and
  \<open>array_next\<close> the loop over the items of an array (at an item, and behind one),
  \<open>object_pairs\<close> and \<open>object_next\<close> the loop over the members of an object. The first
  argument bounds the depth of the calls; \<open>json_loads\<close> starts with more than the length of
  the text, and the text must hold one value and nothing but whitespace around it. The
  literals \<^verbatim>\<open>true\<close>, \<^verbatim>\<open>false\<close>, \<^verbatim>\<open>NaN\<close> and \<^verbatim>\<open>Infinity\<close> are no values of this model.
\<close>

fun scan_once :: "nat \<Rightarrow> string \<Rightarrow> (pyval \<times> string) option"
and array_values :: "nat \<Rightarrow> string \<Rightarrow> (pyval list \<times> string) option"
and array_next :: "nat \<Rightarrow> string \<Rightarrow> (pyval list \<times> string) option"
and object_pairs :: "nat \<Rightarrow> string \<Rightarrow> ((string \<times> pyval) list \<times> string) option"
and object_next :: "nat \<Rightarrow> string \<Rightarrow> ((string \<times> pyval) list \<times> string) option" where
  "scan_once 0 s = None"
| "scan_once (Suc n) s =
     (case s of
        [] \<Rightarrow> None
      | c # cs \<Rightarrow>
          if c = quote then map_option (\<lambda>(str, rest). (PStr str, rest)) (scanstring cs)
          else if c = CHR ''{'' then
            (case skip_ws cs of
               [] \<Rightarrow> None
             | d # ds \<Rightarrow>
                 if d = CHR ''}'' then Some (PDict [], ds)
                 else if d = quote then
                   map_option (\<lambda>(pairs, rest). (PDict (dict_of_pairs pairs), rest))
                     (object_pairs n ds)
                 else None)
          else if c = CHR ''['' then
            (case skip_ws cs of
               [] \<Rightarrow> None
             | d # ds \<Rightarrow>
                 if d = CHR '']'' then Some (PList [], ds)
                 else map_option (\<lambda>(vs, rest). (PList vs, rest)) (array_values n (d # ds)))
          else if c = CHR ''n'' then
            (if take 3 cs = ''ull'' then Some (PNone, drop 3 cs) else None)
          else map_option (\<lambda>(i, rest). (PInt i, rest)) (match_number s))"
| "array_values 0 s = None"
| "array_values (Suc n) s =
     (case scan_once n s of
        None \<Rightarrow> None
      | Some (v, rest) \<Rightarrow> prepend v (array_next n rest))"
| "array_next 0 s = None"
| "array_next (Suc n) s =
     (case skip_ws s of
        [] \<Rightarrow> None
      | c # cs \<Rightarrow>
          if c = CHR '']'' then Some ([], cs)
          else if c = CHR '','' then array_values n (skip_ws cs)
          else None)"
| "object_pairs 0 s = None"
| "object_pairs (Suc n) s =
     (case scanstring s of
        None \<Rightarrow> None
      | Some (key, rest) \<Rightarrow>
          (case skip_ws rest of
             [] \<Rightarrow> None
           | c # cs \<Rightarrow>
               if c = CHR '':'' then
                 (case scan_once n (skip_ws cs) of
                    None \<Rightarrow> None
                  | Some (v, rest') \<Rightarrow> prepend (key, v) (object_next n rest'))
               else None))"
| "object_next 0 s = None"
| "object_next (Suc n) s =
     (case skip_ws s of
        [] \<Rightarrow> None
      | c # cs \<Rightarrow>
          if c = CHR ''}'' then Some ([], cs)
          else if c = CHR '','' then
            (case skip_ws cs of
               [] \<Rightarrow> None
             | q # rest \<Rightarrow> if q = quote then object_pairs n rest else None)
          else None)"

definition json_loads :: "string \<Rightarrow> pyval option" where
  "json_loads s =
     (case scan_once (Suc (length s)) (skip_ws s) of
        None \<Rightarrow> None
      | Some (v, rest) \<Rightarrow> if skip_ws rest = [] then Some v else None)"

text \<open>
  Modelled from the spec: \<open>to_structured_form\<close> is what \<^verbatim>\<open>json.dump\<close> writes for the results
  dictionary, \<open>from_structured_form\<close> parses such a text back and reads the four fields of
  a report off the dictionary.
\<close>

definition results_of_dict :: "pyval \<Rightarrow> scan_results option" where
  "results_of_dict d =
     (case (getitem d ''host'', getitem d ''scan_time'', getitem d ''open_ports'',
            getitem d ''closed_ports'') of
        (Inr (PStr h), Inr (PStr t), Inr (PList ps), Inr (PInt c)) \<Rightarrow>
          Some \<lparr> host = h, scan_time = t, open_ports = ps, closed_ports = c \<rparr>
      | _ \<Rightarrow> None)"

definition to_structured_form :: "scan_results \<Rightarrow> string" where
  "to_structured_form r = json_dumps (results_dict r)"

definition from_structured_form :: "string \<Rightarrow> scan_results option" where
  "from_structured_form s =
     (case json_loads s of None \<Rightarrow> None | Some d \<Rightarrow> results_of_dict d)"

section \<open>Auxiliary notions for the statements\<close>

text \<open>The test \<^verbatim>\<open>result['status'] == 'open'\<close> of the collecting loop.\<close>

definition is_open :: "pyval \<Rightarrow> bool" where
  "is_open d = (getitem d ''status'' = Inr (PStr ''open''))"

text \<open>
  A platform for the concrete runs below. Something listens on the ports 8080 and 1234
  of every host, every other connection is refused (error number 111), and a socket with
  timeout 0 does not wait for either (error number 115, \<^verbatim>\<open>EINPROGRESS\<close>). The name
  \<^verbatim>\<open>no.such.host\<close> does not resolve.
\<close>

definition example_platform :: platform where
  "example_platform =
     \<lparr> max_timeout = 9223372036,
       host_encodes = (\<lambda>h. CHR 0x00 \<notin> set h),
       host_resolves = (\<lambda>h. h \<noteq> ''no.such.host''),
       connect = (\<lambda>t h p. if t = 0 then 115 else if p = 8080 \<or> p = 1234 then 0 else 111) \<rparr>"

text \<open>
  Python dictionaries have no key twice. \<open>distinct_keys\<close> says so of the association lists
  inside a value.
\<close>

fun distinct_keys :: "pyval \<Rightarrow> bool"
and distinct_keys_items :: "pyval list \<Rightarrow> bool"
and distinct_keys_pairs :: "(string \<times> pyval) list \<Rightarrow> bool" where
  "distinct_keys (PList xs) = distinct_keys_items xs"
| "distinct_keys (PDict kvs) = (distinct (map fst kvs) \<and> distinct_keys_pairs kvs)"
| "distinct_keys PNone = True"
| "distinct_keys (PInt i) = True"
| "distinct_keys (PStr s) = True"
| "distinct_keys_items [] = True"
| "distinct_keys_items (x # xs) = (distinct_keys x \<and> distinct_keys_items xs)"
| "distinct_keys_pairs [] = True"
| "distinct_keys_pairs ((k, v) # kvs) = (distinct_keys v \<and> distinct_keys_pairs kvs)"

text \<open>
  The characters an encoded value can begin with, and the texts that may follow an
  encoded integer: nothing that would continue the number.
\<close>

definition value_start :: "char \<Rightarrow> bool" where
  "value_start c =
     (c = CHR ''n'' \<or> c = CHR ''-'' \<or> is_digit c \<or> c = quote \<or> c = CHR ''['' \<or> c = CHR ''{'')"

definition number_ends :: "string \<Rightarrow> bool" where
  "number_ends rest =
     (case rest of
        [] \<Rightarrow> True
      | c # _ \<Rightarrow> \<not> is_digit c \<and> c \<noteq> CHR ''.'' \<and> c \<noteq> CHR ''e'' \<and> c \<noteq> CHR ''E'')"

section \<open>Lemmas about the prober and the collecting loop\<close>

lemmas run_defs = scan_host_def ThreadPoolExecutor_def resolved_ports_def scan_port_def
  cpython_sockets_def example_platform_def open_outcome_def closed_outcome_def dict_get_def
  COMMON_PORTS_def keys_def

lemmas parse_defs = parse_ports_def str_split_def py_int_def strip_def is_space_def decimal_def
  is_digit_def digit_value_def py_range_def maxsize_def int_max_str_digits_def

lemma scan_port_cases:
  "scan_port api h p t = Inr d \<Longrightarrow> d = open_outcome p \<or> d = closed_outcome p"
  by (auto simp: scan_port_def split: option.splits sum.splits if_splits)

lemma getitem_status_open [simp]: "getitem (open_outcome p) ''status'' = Inr (PStr ''open'')"
  by (simp add: open_outcome_def)

lemma getitem_status_closed [simp]: "getitem (closed_outcome p) ''status'' = Inr (PStr ''closed'')"
  by (simp add: closed_outcome_def)

lemma collect_Inr:
  "collect futs order r0 = Inr r \<Longrightarrow>
     \<exists>outs. map (\<lambda>i. futs ! i) order = map Inr outs
       \<and> open_ports r = open_ports r0 @ filter is_open outs
       \<and> closed_ports r = closed_ports r0 + int (length (filter (\<lambda>d. \<not> is_open d) outs))
       \<and> host r = host r0 \<and> scan_time r = scan_time r0"
proof (induction order arbitrary: r0)
  case Nil
  then show ?case by simp
next
  case (Cons i order)
  from Cons.prems obtain d where d: "futs ! i = Inr d"
    by (auto split: sum.splits)
  from Cons.prems d obtain st where st: "getitem d ''status'' = Inr st"
    by (auto split: sum.splits)
  show ?case
  proof (cases "st = PStr ''open''")
    case True
    with Cons.prems d st
    have "collect futs order (r0\<lparr>open_ports := open_ports r0 @ [d]\<rparr>) = Inr r" by simp
    from Cons.IH [OF this] obtain outs where
      "map (\<lambda>i. futs ! i) order = map Inr outs"
      "open_ports r = (open_ports r0 @ [d]) @ filter is_open outs"
      "closed_ports r = closed_ports r0 + int (length (filter (\<lambda>d. \<not> is_open d) outs))"
      "host r = host r0" "scan_time r = scan_time r0"
      by auto
    moreover from st True have "is_open d" by (simp add: is_open_def)
    ultimately show ?thesis using d
      by (intro exI [of _ "d # outs"]) simp
  next
    case False
    with Cons.prems d st
    have "collect futs order (r0\<lparr>closed_ports := closed_ports r0 + 1\<rparr>) = Inr r" by simp
    from Cons.IH [OF this] obtain outs where
      "map (\<lambda>i. futs ! i) order = map Inr outs"
      "open_ports r = open_ports r0 @ filter is_open outs"
      "closed_ports r = (closed_ports r0 + 1) + int (length (filter (\<lambda>d. \<not> is_open d) outs))"
      "host r = host r0" "scan_time r = scan_time r0"
      by auto
    moreover from st False have "\<not> is_open d" by (simp add: is_open_def)
    ultimately show ?thesis using d
      by (intro exI [of _ "d # outs"]) simp
  qed
qed

lemma collect_total:
  "\<forall>i \<in> set order. \<exists>d. futs ! i = Inr d \<and> (\<exists>st. getitem d ''status'' = Inr st)
     \<Longrightarrow> \<exists>r. collect futs order r0 = Inr r"
  by (induction order arbitrary: r0) auto

lemma scan_host_completes:
  assumes "0 < threads"
      and "set order \<subseteq> {0..<length (resolved_ports ports)}"
      and "\<forall>p \<in> set (resolved_ports ports). \<exists>d. scan_port api hst p 1 = Inr d"
  shows "\<exists>r. scan_host api now order hst ports threads = (resolved_ports ports, Inr r)"
proof -
  let ?ps = "resolved_ports ports"
  let ?futs = "map (\<lambda>port. scan_port api hst port 1) ?ps"
  let ?r0 = "\<lparr> host = hst, scan_time = now, open_ports = [], closed_ports = 0 \<rparr>"
  have "\<forall>i \<in> set order. \<exists>d. ?futs ! i = Inr d \<and> (\<exists>st. getitem d ''status'' = Inr st)"
  proof
    fix i
    assume "i \<in> set order"
    with assms(2) have i: "i < length ?ps" by auto
    with assms(3) obtain d where d: "scan_port api hst (?ps ! i) 1 = Inr d"
      by (meson nth_mem)
    from scan_port_cases [OF d] have "\<exists>st. getitem d ''status'' = Inr st"
      by auto
    with i d show "\<exists>d. ?futs ! i = Inr d \<and> (\<exists>st. getitem d ''status'' = Inr st)"
      by simp
  qed
  then obtain r where "collect ?futs order ?r0 = Inr r"
    using collect_total by blast
  with assms(1) show ?thesis
    by (simp add: scan_host_def ThreadPoolExecutor_def Let_def)
qed

lemma those_eq_None: "those xs = None \<longleftrightarrow> None \<in> set xs"
  by (induction xs) (auto split: option.splits)

lemma those_map_Some: "those (map Some xs) = Some xs"
  by (induction xs) auto

section \<open>Lemmas about the persisted report\<close>

lemma hex_value_hex_digit: "n < 16 \<Longrightarrow> hex_value (hex_digit n) = Some n"
  by (auto simp: hex_value_def hex_digit_def Let_def)

lemma decode_byte:
  "k < 256 \<Longrightarrow>
   decode_uXXXX CHR ''0'' CHR ''0'' (hex_digit (k div 16)) (hex_digit (k mod 16)) = Some k"
proof -
  assume k: "k < 256"
  then have "k div 16 < 16" by simp
  then have a: "hex_value (hex_digit (k div 16)) = Some (k div 16)" by (rule hex_value_hex_digit)
  have b: "hex_value (hex_digit (k mod 16)) = Some (k mod 16)" by (rule hex_value_hex_digit) simp
  have z: "hex_value CHR ''0'' = Some 0" by (simp add: hex_value_def)
  show ?thesis by (simp add: decode_uXXXX_def a b z)
qed

lemma of_char_less_256: "(of_char c :: nat) < 256"
  by (rule nat_of_char_less_256)

lemma scanstring_escape_char: "scanstring (escape_char c @ s) = prepend c (scanstring s)"
proof -
  have k: "(of_char c :: nat) < 256" by (rule of_char_less_256)
  consider "c = quote" | "c = backslash" | "c = CHR 0x0A" | "c = CHR 0x0D" | "c = CHR 0x09"
    | "c = CHR 0x08" | "c = CHR 0x0C"
    | "c \<noteq> quote" "c \<noteq> backslash" "32 \<le> (of_char c :: nat)" "(of_char c :: nat) \<le> 126"
    | "c \<noteq> quote" "c \<noteq> backslash" "c \<noteq> CHR 0x0A" "c \<noteq> CHR 0x0D" "c \<noteq> CHR 0x09" "c \<noteq> CHR 0x08"
      "c \<noteq> CHR 0x0C" "\<not> (32 \<le> (of_char c :: nat) \<and> (of_char c :: nat) \<le> 126)"
    by blast
  then show ?thesis
  proof cases
    case 8
    then have "escape_char c = [c]"
      by (auto simp: escape_char_def quote_def backslash_def)
    with 8 show ?thesis by simp
  next
    case 9
    then have "escape_char c = [backslash, CHR ''u'', CHR ''0'', CHR ''0'',
            hex_digit (of_char c div 16), hex_digit (of_char c mod 16)]"
      by (simp add: escape_char_def)
    then show ?thesis
      by (simp add: decode_byte [OF k] k quote_def backslash_def)
  qed (simp_all add: escape_char_def quote_def backslash_def BACKSLASH_def)
qed

lemma scanstring_escaped:
  "scanstring (concat (map escape_char str) @ quote # rest) = Some (str, rest)"
  by (induction str) (simp_all add: scanstring_escape_char prepend_def)

lemma scanstring_encoded:
  "encode_basestring_ascii str @ rest = quote # concat (map escape_char str) @ quote # rest"
  by (simp add: encode_basestring_ascii_def)

lemma is_digit_char_of: "(d::nat) < 10 \<Longrightarrow> is_digit (char_of (48 + d))"
  by (simp add: is_digit_def)

lemma digits_of_are_digits: "c \<in> set (digits_of n) \<Longrightarrow> is_digit c"
proof (induction n arbitrary: c rule: digits_of.induct)
  case (1 n)
  show ?case
  proof (cases "n < 10")
    case True
    with "1.prems" show ?thesis
      by (simp add: digits_of.simps [of n] is_digit_char_of)
  next
    case False
    with "1.prems" have "c \<in> set (digits_of (n div 10)) \<or> c = char_of (48 + n mod 10)"
      by (auto simp: digits_of.simps [of n])
    with False "1.IH" show ?thesis
      by (auto simp: is_digit_char_of)
  qed
qed

lemma char_of_48: "char_of (48::nat) = CHR ''0''"
  by code_simp

lemma digits_of_0: "digits_of 0 = ''0''"
  by (simp add: digits_of.simps [of 0] char_of_48)

lemma digits_of_not_Nil: "digits_of n \<noteq> []"
  by (simp add: digits_of.simps [of n])

lemma nat_of_digits_snoc:
  "nat_of_digits (ds @ [c]) = 10 * nat_of_digits ds + (of_char c - 48)"
  by (simp add: nat_of_digits_def)

lemma nat_of_digits_digits_of: "nat_of_digits (digits_of n) = n"
proof (induction n rule: digits_of.induct)
  case (1 n)
  show ?case
  proof (cases "n < 10")
    case True
    then show ?thesis
      by (simp add: digits_of.simps [of n] nat_of_digits_def)
  next
    case False
    then have "nat_of_digits (digits_of n) = 10 * nat_of_digits (digits_of (n div 10)) + n mod 10"
      by (simp add: digits_of.simps [of n] nat_of_digits_snoc)
    with False "1.IH" show ?thesis by simp
  qed
qed

lemma hd_digits_of: "0 < n \<Longrightarrow> hd (digits_of n) \<noteq> CHR ''0''"
proof (induction n rule: digits_of.induct)
  case (1 n)
  show ?case
  proof (cases "n < 10")
    case True
    with "1.prems" show ?thesis
      by (simp add: digits_of.simps [of n] char_of_eq_iff take_bit_eq_mod)
  next
    case False
    then have "0 < n div 10" by simp
    with False "1.IH" have "hd (digits_of (n div 10)) \<noteq> CHR ''0''" by simp
    with False show ?thesis
      by (simp add: digits_of.simps [of n] digits_of_not_Nil)
  qed
qed

lemma takeWhile_digits:
  assumes "\<forall>c \<in> set ds. is_digit c" and "number_ends rest"
  shows "takeWhile is_digit (ds @ rest) = ds" and "dropWhile is_digit (ds @ rest) = rest"
proof -
  from assms(2) have "rest = [] \<or> \<not> is_digit (hd rest)"
    by (auto simp: number_ends_def split: list.splits)
  then have "takeWhile is_digit rest = []" and "dropWhile is_digit rest = rest"
    by (cases rest; auto)+
  with assms(1) show "takeWhile is_digit (ds @ rest) = ds"
    and "dropWhile is_digit (ds @ rest) = rest"
    by (simp_all add: takeWhile_append2 dropWhile_append2)
qed

lemma match_integer_digits_of:
  assumes "number_ends rest"
  shows "match_integer (digits_of n @ rest) = Some (n, rest)"
proof (cases "n = 0")
  case True
  then show ?thesis
    by (simp add: digits_of_0 match_integer_def)
next
  case False
  obtain c cs where ds: "digits_of n = c # cs"
    using digits_of_not_Nil [of n] by (cases "digits_of n") auto
  from False hd_digits_of [of n] ds have c0: "c \<noteq> CHR ''0''" by simp
  from digits_of_are_digits [of _ n] ds have dc: "is_digit c" and dcs: "\<forall>x \<in> set cs. is_digit x"
    by auto
  from takeWhile_digits [OF dcs assms] nat_of_digits_digits_of [of n] ds c0 dc
  show ?thesis
    by (simp add: match_integer_def)
qed

lemma number_ends_no_float: "number_ends rest \<Longrightarrow> \<not> has_frac rest \<and> \<not> has_exp rest"
  by (auto simp: number_ends_def has_frac_def has_exp_def split: list.splits)

lemma match_number_int_repr:
  assumes "number_ends rest"
  shows "match_number (int_repr i @ rest) = Some (i, rest)"
proof (cases "i < 0")
  case True
  with match_integer_digits_of [OF assms, of "nat (- i)"] number_ends_no_float [OF assms]
  show ?thesis
    by (simp add: match_number_def int_repr_def)
next
  case False
  obtain c cs where ds: "digits_of (nat i) = c # cs"
    using digits_of_not_Nil [of "nat i"] by (cases "digits_of (nat i)") auto
  with digits_of_are_digits [of c "nat i"] have "is_digit c" by simp
  then have "c \<noteq> CHR ''-''" by (auto simp: is_digit_def)
  with False ds match_integer_digits_of [OF assms, of "nat i"] number_ends_no_float [OF assms]
  show ?thesis
    by (simp add: match_number_def int_repr_def)
qed

lemma value_start_simps:
  "value_start c \<Longrightarrow> \<not> is_ws c \<and> c \<noteq> CHR '']'' \<and> c \<noteq> CHR ''}''"
  by (auto simp: value_start_def is_ws_def is_digit_def quote_def)

lemma int_repr_start: "\<exists>c cs. int_repr i = c # cs \<and> value_start c"
proof (cases "i < 0")
  case True
  then show ?thesis by (simp add: int_repr_def value_start_def)
next
  case False
  obtain c cs where ds: "digits_of (nat i) = c # cs"
    using digits_of_not_Nil [of "nat i"] by (cases "digits_of (nat i)") auto
  with digits_of_are_digits [of c "nat i"] have "is_digit c" by simp
  with False ds show ?thesis by (simp add: int_repr_def value_start_def)
qed

lemma iterencode_start: "\<exists>c cs. iterencode level v = c # cs \<and> value_start c"
proof (cases v)
  case (PInt i)
  with int_repr_start [of i] show ?thesis by simp
next
  case (PList xs)
  then show ?thesis by (cases xs) (simp_all add: value_start_def)
next
  case (PDict kvs)
  then show ?thesis by (cases kvs) (auto simp: value_start_def)
qed (simp_all add: value_start_def encode_basestring_ascii_def)

lemma skip_ws_newline_indent: "skip_ws (newline_indent l @ s) = skip_ws s"
proof -
  have "\<forall>c \<in> set (newline_indent l). is_ws c"
    by (auto simp: newline_indent_def is_ws_def)
  then show ?thesis
    by (simp add: skip_ws_def dropWhile_append2)
qed

lemma skip_ws_Cons: "\<not> is_ws c \<Longrightarrow> skip_ws (c # s) = c # s"
  by (simp add: skip_ws_def)

lemma skip_ws_space: "skip_ws (CHR '' '' # s) = skip_ws s"
  by (simp add: skip_ws_def is_ws_def)

lemma skip_ws_iterencode: "skip_ws (iterencode level v @ s) = iterencode level v @ s"
proof -
  obtain c cs where "iterencode level v = c # cs" and "value_start c"
    using iterencode_start by blast
  then show ?thesis
    by (simp add: skip_ws_Cons value_start_simps)
qed

lemma number_ends_comma: "number_ends (CHR '','' # s)"
  by (simp add: number_ends_def is_digit_def)

lemma number_ends_newline: "number_ends (newline_indent l @ s)"
  by (simp add: number_ends_def newline_indent_def is_digit_def)

lemma number_ends_items:
  "number_ends (iterencode_items level xs @ newline_indent l @ s)"
  by (cases xs) (simp_all add: number_ends_newline number_ends_comma)

lemma number_ends_pairs:
  "number_ends (iterencode_pairs level kvs @ newline_indent l @ s)"
  by (cases kvs) (auto simp: number_ends_newline number_ends_comma)

lemma setitem_fresh: "k \<notin> fst ` set d \<Longrightarrow> setitem d k v = d @ [(k, v)]"
  by (induction d) auto

lemma foldl_setitem_distinct:
  "distinct (map fst d @ map fst pairs) \<Longrightarrow>
   foldl (\<lambda>d (k, v). setitem d k v) d pairs = d @ pairs"
proof (induction pairs arbitrary: d)
  case Nil
  then show ?case by simp
next
  case (Cons p pairs)
  obtain k v where p: "p = (k, v)" by (cases p)
  from Cons.prems p have fresh: "k \<notin> fst ` set d" by auto
  from Cons.prems p have "distinct (map fst (d @ [(k, v)]) @ map fst pairs)" by auto
  from Cons.IH [OF this] p fresh show ?case
    by (simp add: setitem_fresh)
qed

lemma dict_of_pairs_distinct: "distinct (map fst pairs) \<Longrightarrow> dict_of_pairs pairs = pairs"
  using foldl_setitem_distinct [of "[]" pairs] by (simp add: dict_of_pairs_def)

lemma scan_string_value:
  "scan_once (Suc n) (encode_basestring_ascii s @ rest) = Some (PStr s, rest)"
  by (simp add: scanstring_encoded scanstring_escaped)

lemma key_then_value:
  assumes v: "scan_once n (iterencode level v @ r) = Some (v, r)"
      and nx: "object_next n r = Some (kvs, rest)"
  shows "object_pairs (Suc n)
           (concat (map escape_char k) @ quote # '': '' @ iterencode level v @ r)
         = Some ((k, v) # kvs, rest)"
proof -
  have "skip_ws ('': '' @ iterencode level v @ r) = CHR '':'' # CHR '' '' # iterencode level v @ r"
    by (simp add: skip_ws_Cons is_ws_def)
  moreover have "skip_ws (CHR '' '' # iterencode level v @ r) = iterencode level v @ r"
    by (simp add: skip_ws_space skip_ws_iterencode)
  ultimately show ?thesis
    using v nx by (simp add: scanstring_escaped prepend_def)
qed

lemma roundtrip_values:
  "distinct_keys v \<Longrightarrow> number_ends rest \<Longrightarrow> length (iterencode level v) \<le> n
     \<Longrightarrow> scan_once n (iterencode level v @ rest) = Some (v, rest)"
  "distinct_keys_items xs \<Longrightarrow> length (iterencode_items level xs) < n
     \<Longrightarrow> array_next n (iterencode_items level xs @ newline_indent l @ CHR '']'' # rest)
         = Some (xs, rest)"
  "distinct_keys_pairs kvs \<Longrightarrow> length (iterencode_pairs level kvs) < n
     \<Longrightarrow> object_next n (iterencode_pairs level kvs @ newline_indent l @ CHR ''}'' # rest)
         = Some (kvs, rest)"
proof (induction level v and level xs and level kvs
       arbitrary: n rest and n l rest and n l rest
       rule: iterencode_iterencode_items_iterencode_pairs.induct)
  case (1 level)
  then obtain m where "n = Suc m" by (cases n) auto
  then show ?case by (simp add: quote_def)
next
  case (2 level i)
  obtain c cs where ir: "int_repr i = c # cs" and vs: "value_start c"
    using int_repr_start by blast
  from 2 ir obtain m where n: "n = Suc m" by (cases n) auto
  have "scan_once (Suc m) (int_repr i @ rest)
          = map_option (\<lambda>(i, rest). (PInt i, rest)) (match_number (int_repr i @ rest))"
  proof -
    from ir vs have "c \<noteq> quote \<and> c \<noteq> CHR ''{'' \<and> c \<noteq> CHR ''['' \<and> c \<noteq> CHR ''n''"
    proof (cases "i < 0")
      case True
      with ir show ?thesis by (auto simp: int_repr_def quote_def)
    next
      case False
      with ir digits_of_are_digits [of c "nat i"] have "is_digit c" by (simp add: int_repr_def)
      then show ?thesis by (auto simp: is_digit_def quote_def)
    qed
    with ir show ?thesis by simp
  qed
  with n "2.prems" show ?case
    by (simp add: match_number_int_repr)
next
  case (3 level s)
  then obtain m where "n = Suc m"
    by (cases n) (auto simp: encode_basestring_ascii_def)
  then show ?case
    using scan_string_value [of m s rest] by (simp del: scan_once.simps)
next
  case (4 level)
  then obtain m where "n = Suc m" by (cases n) auto
  then show ?case by (simp add: quote_def skip_ws_Cons is_ws_def)
next
  case (5 level x xs)
  let ?r = "iterencode_items (level + 1) xs @ newline_indent level @ CHR '']'' # rest"
  from "5.prems" obtain k where n: "n = Suc (Suc k)"
    and kx: "length (iterencode (level + 1) x) \<le> k"
    and kxs: "length (iterencode_items (level + 1) xs) < k"
    by (cases n; cases "n - 1") (auto simp: newline_indent_def)
  from "5.prems" have wx: "distinct_keys x" and wxs: "distinct_keys_items xs" by simp_all
  have x: "scan_once k (iterencode (level + 1) x @ ?r) = Some (x, ?r)"
    by (rule "5.IH"(1) [OF wx number_ends_items kx])
  have xs: "array_next k ?r = Some (xs, rest)"
    by (rule "5.IH"(2) [OF wxs kxs])
  obtain c cs where st: "iterencode (level + 1) x = c # cs" and vs: "value_start c"
    using iterencode_start by blast
  have sk: "skip_ws (newline_indent (level + 1) @ iterencode (level + 1) x @ ?r)
             = c # cs @ ?r"
    using st vs by (simp add: skip_ws_newline_indent skip_ws_Cons value_start_simps)
  from x st have x': "scan_once k (c # cs @ ?r) = Some (x, ?r)" by simp
  from vs have "c \<noteq> CHR '']''" by (simp add: value_start_simps)
  with n sk x' xs show ?case
    by (simp add: quote_def prepend_def)
next
  case (6 level)
  then obtain m where "n = Suc m" by (cases n) auto
  then show ?case by (simp add: quote_def skip_ws_Cons is_ws_def)
next
  case (7 level k v kvs)
  let ?r = "iterencode_pairs (level + 1) kvs @ newline_indent level @ CHR ''}'' # rest"
  from "7.prems" obtain j where n: "n = Suc (Suc j)"
    and jv: "length (iterencode (level + 1) v) \<le> j"
    and jkvs: "length (iterencode_pairs (level + 1) kvs) < j"
    by (cases n; cases "n - 1") (auto simp: newline_indent_def)
  from "7.prems" have wv: "distinct_keys v" and wkvs: "distinct_keys_pairs kvs"
    and dk: "distinct (map fst ((k, v) # kvs))" by simp_all
  have v: "scan_once j (iterencode (level + 1) v @ ?r) = Some (v, ?r)"
    by (rule "7.IH"(1) [OF wv number_ends_pairs jv])
  have kvs: "object_next j ?r = Some (kvs, rest)"
    by (rule "7.IH"(2) [OF wkvs jkvs])
  have sk: "skip_ws (newline_indent (level + 1) @ encode_basestring_ascii k @ '': ''
               @ iterencode (level + 1) v @ ?r)
             = quote # concat (map escape_char k) @ quote # '': '' @ iterencode (level + 1) v @ ?r"
    by (simp add: skip_ws_newline_indent encode_basestring_ascii_def skip_ws_Cons is_ws_def quote_def)
  from key_then_value [OF v kvs, of k] n sk dict_of_pairs_distinct [OF dk]
  show ?case
    by (simp add: quote_def)
next
  case (8 level)
  then obtain m where "n = Suc m" by (cases n) auto
  then show ?case
    by (simp add: skip_ws_newline_indent skip_ws_Cons is_ws_def)
next
  case (9 level x xs)
  let ?r = "iterencode_items level xs @ newline_indent l @ CHR '']'' # rest"
  from "9.prems" obtain k where n: "n = Suc (Suc k)"
    and kx: "length (iterencode level x) \<le> k"
    and kxs: "length (iterencode_items level xs) < k"
    by (cases n; cases "n - 1") (auto simp: newline_indent_def)
  from "9.prems" have wx: "distinct_keys x" and wxs: "distinct_keys_items xs" by simp_all
  have x: "scan_once k (iterencode level x @ ?r) = Some (x, ?r)"
    by (rule "9.IH"(1) [OF wx number_ends_items kx])
  have xs: "array_next k ?r = Some (xs, rest)"
    by (rule "9.IH"(2) [OF wxs kxs])
  have sk: "skip_ws (newline_indent level @ iterencode level x @ ?r) = iterencode level x @ ?r"
    by (simp add: skip_ws_newline_indent skip_ws_iterencode)
  from n sk x xs show ?case
    by (simp add: skip_ws_Cons is_ws_def prepend_def)
next
  case (10 level)
  then obtain m where "n = Suc m" by (cases n) auto
  then show ?case
    by (simp add: skip_ws_newline_indent skip_ws_Cons is_ws_def)
next
  case (11 level k v kvs)
  let ?r = "iterencode_pairs level kvs @ newline_indent l @ CHR ''}'' # rest"
  from "11.prems" obtain j where n: "n = Suc (Suc j)"
    and jv: "length (iterencode level v) \<le> j"
    and jkvs: "length (iterencode_pairs level kvs) < j"
    by (cases n; cases "n - 1") (auto simp: newline_indent_def)
  from "11.prems" have wv: "distinct_keys v" and wkvs: "distinct_keys_pairs kvs" by simp_all
  have v: "scan_once j (iterencode level v @ ?r) = Some (v, ?r)"
    by (rule "11.IH"(1) [OF wv number_ends_pairs jv])
  have kvs: "object_next j ?r = Some (kvs, rest)"
    by (rule "11.IH"(2) [OF wkvs jkvs])
  have sk: "skip_ws (newline_indent level @ encode_basestring_ascii k @ '': ''
               @ iterencode level v @ ?r)
             = quote # concat (map escape_char k) @ quote # '': '' @ iterencode level v @ ?r"
    by (simp add: skip_ws_newline_indent encode_basestring_ascii_def skip_ws_Cons is_ws_def quote_def)
  from key_then_value [OF v kvs, of k] n sk
  show ?case
    by (simp add: skip_ws_Cons is_ws_def quote_def)
qed

lemma json_roundtrip:
  assumes "distinct_keys v"
  shows "json_loads (json_dumps v) = Some v"
proof -
  have "number_ends []" by (simp add: number_ends_def)
  from roundtrip_values(1) [OF assms this, of 0 "Suc (length (iterencode 0 v))"]
  have "scan_once (Suc (length (iterencode 0 v))) (iterencode 0 v) = Some (v, [])"
    by simp
  moreover have "skip_ws (iterencode 0 v) = iterencode 0 v"
    using skip_ws_iterencode [of 0 v "[]"] by simp
  ultimately show ?thesis
    by (simp add: json_loads_def json_dumps_def skip_ws_def)
qed

lemma results_of_dict_results_dict: "results_of_dict (results_dict r) = Some r"
  by (simp add: results_of_dict_def results_dict_def)

lemma collect_distinct_keys:
  "collect futs order r0 = Inr r \<Longrightarrow> distinct_keys_items (open_ports r0)
     \<Longrightarrow> \<forall>i \<in> set order. \<forall>d. futs ! i = Inr d \<longrightarrow> distinct_keys d
     \<Longrightarrow> distinct_keys_items (open_ports r)"
proof (induction order arbitrary: r0)
  case Nil
  then show ?case by simp
next
  case (Cons i order)
  have app: "\<And>xs d. distinct_keys_items xs \<Longrightarrow> distinct_keys d \<Longrightarrow> distinct_keys_items (xs @ [d])"
  proof -
    fix xs :: "pyval list" and d
    show "distinct_keys_items xs \<Longrightarrow> distinct_keys d \<Longrightarrow> distinct_keys_items (xs @ [d])"
      by (induction xs) auto
  qed
  from Cons.prems(1) obtain d where d: "futs ! i = Inr d"
    by (auto split: sum.splits)
  with Cons.prems(3) have dk: "distinct_keys d" by simp
  from Cons.prems(1) d obtain st where st: "getitem d ''status'' = Inr st"
    by (auto split: sum.splits)
  from Cons.prems(3) have rest: "\<forall>i \<in> set order. \<forall>d. futs ! i = Inr d \<longrightarrow> distinct_keys d"
    by simp
  show ?case
  proof (cases "st = PStr ''open''")
    case True
    with Cons.prems(1) d st
    have "collect futs order (r0\<lparr>open_ports := open_ports r0 @ [d]\<rparr>) = Inr r" by simp
    moreover from Cons.prems(2) dk have "distinct_keys_items (open_ports (r0\<lparr>open_ports := open_ports r0 @ [d]\<rparr>))"
      by (simp add: app)
    ultimately show ?thesis using rest by (rule Cons.IH)
  next
    case False
    with Cons.prems(1) d st
    have "collect futs order (r0\<lparr>closed_ports := closed_ports r0 + 1\<rparr>) = Inr r" by simp
    moreover from Cons.prems(2) have "distinct_keys_items (open_ports (r0\<lparr>closed_ports := closed_ports r0 + 1\<rparr>))"
      by simp
    ultimately show ?thesis using rest by (rule Cons.IH)
  qed
qed

lemma scan_port_distinct_keys: "scan_port api h p t = Inr d \<Longrightarrow> distinct_keys d"
  using scan_port_cases [of api h p t d] by (auto simp: open_outcome_def closed_outcome_def)

lemma scan_host_distinct_keys:
  assumes "scan_host api now order hst ports threads = (sent, Inr r)"
      and "set order \<subseteq> {0..<length (resolved_ports ports)}"
  shows "distinct_keys_items (open_ports r)"
proof -
  let ?ps = "resolved_ports ports"
  let ?futs = "map (\<lambda>port. scan_port api hst port 1) ?ps"
  let ?r0 = "\<lparr> host = hst, scan_time = now, open_ports = [], closed_ports = 0 \<rparr>"
  from assms(1) have col: "collect ?futs order ?r0 = Inr r"
    by (auto simp: scan_host_def ThreadPoolExecutor_def Let_def split: if_splits)
  have "\<forall>i \<in> set order. \<forall>d. ?futs ! i = Inr d \<longrightarrow> distinct_keys d"
  proof (intro ballI allI impI)
    fix i d
    assume "i \<in> set order" and d: "?futs ! i = Inr d"
    with assms(2) have "i < length ?ps" by auto
    with d have "scan_port api hst (?ps ! i) 1 = Inr d" by simp
    then show "distinct_keys d" by (rule scan_port_distinct_keys)
  qed
  then have ok: "\<forall>i \<in> set order. \<forall>d. ?futs ! i = Inr d \<longrightarrow> distinct_keys d" .
  have "distinct_keys_items (open_ports ?r0)" by simp
  from collect_distinct_keys [OF col this ok] show ?thesis .
qed

section \<open>The report accounts for every port\<close>

text \<open>
  C1. When a scan returns its report, the number of closed ports plus the number of entries
  of \<open>open_ports\<close> is the number of ports that were to be scanned. One probe was submitted
  for each of these ports, every probe gave one outcome, and the outcomes, in completion
  order, are split between the two: the open ones are the entries of \<open>open_ports\<close>, the
  others are counted by \<open>closed_ports\<close>.
\<close>

theorem scan_accounts_for_every_port:
  assumes scan: "scan_host api now order hst ports threads = (sent, Inr r)"
      and perm: "mset order = mset [0..<length (resolved_ports ports)]"
  shows "closed_ports r + int (length (open_ports r)) = int (length (resolved_ports ports))
     \<and> sent = resolved_ports ports
     \<and> (\<exists>outs. map (\<lambda>i. scan_port api hst (resolved_ports ports ! i) 1) order = map Inr outs
           \<and> open_ports r = filter is_open outs
           \<and> closed_ports r = int (length (filter (\<lambda>d. \<not> is_open d) outs)))"
proof -
  let ?ps = "resolved_ports ports"
  let ?futs = "map (\<lambda>port. scan_port api hst port 1) ?ps"
  let ?r0 = "\<lparr> host = hst, scan_time = now, open_ports = [], closed_ports = 0 \<rparr>"
  from scan have pos: "0 < threads" and sent: "sent = ?ps"
    and col: "collect ?futs order ?r0 = Inr r"
    by (auto simp: scan_host_def ThreadPoolExecutor_def Let_def split: if_splits)
  from collect_Inr [OF col] obtain outs where
    outs: "map (\<lambda>i. ?futs ! i) order = map Inr outs"
    and op: "open_ports r = filter is_open outs"
    and cl: "closed_ports r = int (length (filter (\<lambda>d. \<not> is_open d) outs))"
    by auto
  from perm have len: "length order = length ?ps"
    by (metis length_upt minus_nat.diff_0 size_mset)
  from perm have "set order = {0..<length ?ps}"
    by (metis atLeastLessThan_upt set_mset_mset)
  then have "map (\<lambda>i. ?futs ! i) order = map (\<lambda>i. scan_port api hst (?ps ! i) 1) order"
    by auto
  with outs have outs': "map (\<lambda>i. scan_port api hst (?ps ! i) 1) order = map Inr outs"
    by simp
  from outs have "length outs = length order"
    by (metis length_map)
  with len have "length outs = length ?ps" by simp
  moreover have "length (filter is_open outs) + length (filter (\<lambda>d. \<not> is_open d) outs) = length outs"
    by (rule sum_length_filter_compl)
  ultimately have "closed_ports r + int (length (open_ports r)) = int (length ?ps)"
    using op cl by simp
  with sent outs' op cl show ?thesis by blast
qed

text \<open>A concrete run that meets the hypotheses.\<close>

theorem scan_accounts_for_every_port_witness:
  "scan_host (cpython_sockets example_platform) ''2026-01-01T00:00:00'' [1, 0] ''127.0.0.1''
       (Some [8080, 9999]) 50
     = ([8080, 9999],
        Inr \<lparr> host = ''127.0.0.1'', scan_time = ''2026-01-01T00:00:00'',
              open_ports = [PDict [(''port'', PInt 8080), (''status'', PStr ''open''),
                                   (''service'', PStr ''HTTP-Proxy'')]],
              closed_ports = 1 \<rparr>)
   \<and> mset [1, 0] = mset [0..<length (resolved_ports (Some [8080, 9999]))]
   \<and> (1::int) + int (length [PDict [(''port'', PInt 8080), (''status'', PStr ''open''),
                                   (''service'', PStr ''HTTP-Proxy'')]])
       = int (length (resolved_ports (Some [8080, 9999])))"
proof -
  let ?r = "\<lparr> host = ''127.0.0.1'', scan_time = ''2026-01-01T00:00:00'',
              open_ports = [PDict [(''port'', PInt 8080), (''status'', PStr ''open''),
                                   (''service'', PStr ''HTTP-Proxy'')]],
              closed_ports = 1 \<rparr>"
  have run: "scan_host (cpython_sockets example_platform) ''2026-01-01T00:00:00'' [1, 0] ''127.0.0.1''
       (Some [8080, 9999]) 50 = ([8080, 9999], Inr ?r)"
    by (simp add: run_defs)
  have perm: "mset [1, 0] = mset [0..<length (resolved_ports (Some [8080, 9999]))]"
    by (simp add: resolved_ports_def upt_rec)
  from scan_accounts_for_every_port [OF run perm] run perm show ?thesis
    by simp
qed

section \<open>What leaves the prober\<close>




section \<open>The service name of an open port\<close>

text \<open>
  C3, as the code has it. For a port that is not a key of \<^verbatim>\<open>COMMON_PORTS\<close>, an open
  outcome carries the service name \<^verbatim>\<open>'Unknown'\<close>, the default of the catalog lookup.
\<close>

theorem unlisted_open_port_is_Unknown:
  assumes "port \<notin> set (keys COMMON_PORTS)"
      and "scan_port api hst port timeout = Inr d"
      and "getitem d ''status'' = Inr (PStr ''open'')"
  shows "getitem d ''service'' = Inr (PStr ''Unknown'')"
proof -
  from assms(1) have "map_of COMMON_PORTS port = None"
    by (simp add: keys_def map_of_eq_None_iff)
  moreover from assms(2,3) have "d = open_outcome port"
    using scan_port_cases [OF assms(2)] by (auto simp: closed_outcome_def)
  ultimately show ?thesis
    by (simp add: open_outcome_def dict_get_def)
qed

text \<open>A concrete run that meets the hypotheses.\<close>

theorem unlisted_open_port_is_Unknown_witness:
  "(1234::int) \<notin> set (keys COMMON_PORTS)
   \<and> scan_port (cpython_sockets example_platform) ''127.0.0.1'' 1234 1
       = Inr (PDict [(''port'', PInt 1234), (''status'', PStr ''open''),
                     (''service'', PStr ''Unknown'')])
   \<and> getitem (PDict [(''port'', PInt 1234), (''status'', PStr ''open''),
                     (''service'', PStr ''Unknown'')]) ''service'' = Inr (PStr ''Unknown'')"
proof -
  let ?d = "PDict [(''port'', PInt 1234), (''status'', PStr ''open''),
                     (''service'', PStr ''Unknown'')]"
  have a: "(1234::int) \<notin> set (keys COMMON_PORTS)"
    by (simp add: keys_def COMMON_PORTS_def)
  have b: "scan_port (cpython_sockets example_platform) ''127.0.0.1'' 1234 1 = Inr ?d"
    by (simp add: run_defs)
  have c: "getitem ?d ''status'' = Inr (PStr ''open'')" by simp
  from unlisted_open_port_is_Unknown [OF a b c] a b show ?thesis by simp
qed

text \<open>
  Port 1234 is not in the catalog, and its open outcome has a service name: the string
  \<^verbatim>\<open>'Unknown'\<close>. The field is neither absent nor \<^verbatim>\<open>None\<close>.
\<close>

theorem unlisted_open_port_has_service_name:
  "(1234::int) \<notin> set (keys COMMON_PORTS)
   \<and> (\<exists>d. scan_port (cpython_sockets example_platform) ''127.0.0.1'' 1234 1 = Inr d
         \<and> getitem d ''status'' = Inr (PStr ''open'')
         \<and> getitem d ''service'' = Inr (PStr ''Unknown''))"
  by (simp add: run_defs)

section \<open>Malformed port specifications\<close>

text \<open>
  C4, as the code has it. A non-empty port specification with a piece that \<^verbatim>\<open>int\<close> rejects
  (a piece between commas, or between hyphens when the specification has a hyphen), or a
  specification with a hyphen that does not split into exactly two pieces, makes \<^verbatim>\<open>main\<close>
  fail with \<^verbatim>\<open>ValueError\<close> before any probe is submitted.
\<close>

theorem malformed_spec_fails_before_probing:
  assumes "s \<noteq> []"
      and "(\<exists>tok \<in> set (str_split s (if CHR ''-'' \<in> set s then CHR ''-'' else CHR '','')).
              py_int tok = None)
           \<or> (CHR ''-'' \<in> set s \<and> length (str_split s CHR ''-'') \<noteq> 2)"
  shows "main api now order target (Some s) threads = ([], Inl ValueError)"
proof (cases "CHR ''-'' \<in> set s")
  case True
  let ?toks = "map py_int (str_split s CHR ''-'')"
  from assms(2) True have "None \<in> set ?toks \<or> length ?toks \<noteq> 2"
    by (fastforce simp: image_iff)
  then have "(case ?toks of
               [Some start, Some stop] \<Rightarrow>
                 (case py_range start (stop + 1) of
                    Inl e \<Rightarrow> Inl e
                  | Inr ps \<Rightarrow> Inr (Some ps))
             | _ \<Rightarrow> Inl ValueError) = Inl ValueError"
    by (auto split: list.splits option.splits)
  with True assms(1) show ?thesis
    by (simp add: main_def parse_ports_def)
next
  case False
  with assms(2) obtain tok where "tok \<in> set (str_split s CHR '','')" and "py_int tok = None"
    by auto
  then have "None \<in> set (map py_int (str_split s CHR '',''))"
    by (metis image_eqI set_map)
  then have "those (map py_int (str_split s CHR '','')) = None"
    by (simp only: those_eq_None)
  with False assms(1) show ?thesis
    by (simp add: main_def parse_ports_def)
qed

text \<open>A concrete run that meets the hypotheses.\<close>

theorem malformed_spec_fails_before_probing_witness:
  "''22,foo'' \<noteq> []
   \<and> ''foo'' \<in> set (str_split ''22,foo'' (if CHR ''-'' \<in> set ''22,foo'' then CHR ''-'' else CHR '',''))
   \<and> py_int ''foo'' = None
   \<and> main (cpython_sockets example_platform) ''2026-01-01T00:00:00'' [0, 1] ''127.0.0.1'' (Some ''22,foo'') 50
       = ([], Inl ValueError)
   \<and> CHR ''-'' \<in> set ''1-2-3'' \<and> length (str_split ''1-2-3'' CHR ''-'') \<noteq> 2
   \<and> main (cpython_sockets example_platform) ''2026-01-01T00:00:00'' [0, 1] ''127.0.0.1'' (Some ''1-2-3'') 50
       = ([], Inl ValueError)"
proof -
  have a: "''22,foo'' \<noteq> []" by simp
  have tok: "''foo'' \<in> set (str_split ''22,foo'' (if CHR ''-'' \<in> set ''22,foo'' then CHR ''-'' else CHR '',''))"
    by (simp add: str_split_def)
  have bad: "py_int ''foo'' = None"
    by (simp add: parse_defs)
  from tok bad have b: "(\<exists>tok \<in> set (str_split ''22,foo'' (if CHR ''-'' \<in> set ''22,foo'' then CHR ''-'' else CHR '','')).
              py_int tok = None)
           \<or> (CHR ''-'' \<in> set ''22,foo'' \<and> length (str_split ''22,foo'' CHR ''-'') \<noteq> 2)"
    by blast
  have c: "''1-2-3'' \<noteq> []" by simp
  have three: "CHR ''-'' \<in> set ''1-2-3'' \<and> length (str_split ''1-2-3'' CHR ''-'') \<noteq> 2"
    by (simp add: str_split_def)
  then have d: "(\<exists>tok \<in> set (str_split ''1-2-3'' (if CHR ''-'' \<in> set ''1-2-3'' then CHR ''-'' else CHR '','')).
              py_int tok = None)
           \<or> (CHR ''-'' \<in> set ''1-2-3'' \<and> length (str_split ''1-2-3'' CHR ''-'') \<noteq> 2)"
    by blast
  from malformed_spec_fails_before_probing [OF a b] malformed_spec_fails_before_probing [OF c d]
    a tok bad three
  show ?thesis by blast
qed

text \<open>
  The range \<^verbatim>\<open>50-20\<close>, whose start exceeds its end, is not rejected: it resolves to the
  empty list of ports, and the scan runs and returns an empty report.
\<close>

theorem reversed_range_runs_empty_scan:
  "parse_ports (Some ''50-20'') = Inr (Some [])
   \<and> main (cpython_sockets example_platform) ''2026-01-01T00:00:00'' [] ''127.0.0.1'' (Some ''50-20'') 50
       = ([], Inr \<lparr> host = ''127.0.0.1'', scan_time = ''2026-01-01T00:00:00'',
                     open_ports = [], closed_ports = 0 \<rparr>)"
  by (simp add: main_def parse_defs run_defs)

section \<open>Numbers outside the port range\<close>

text \<open>
  C5, as the code has it. No piece of a port specification is checked against the range
  1 to 65535. A comma list whose pieces \<^verbatim>\<open>int\<close> accepts resolves to the integers as
  written, and a range of two such pieces, the second at most 65535 above the first, to
  every integer from the first to the second. Numbers outside 1 to 65535 stay in the
  list, and with a positive pool size a probe is submitted for each number of the list.
\<close>

theorem out_of_bounds_ports_are_probed:
  assumes "s \<noteq> []" and "0 < threads"
  shows "(CHR ''-'' \<notin> set s \<and> map py_int (str_split s CHR '','') = map Some ps
            \<longrightarrow> parse_ports (Some s) = Inr (Some ps)
                \<and> fst (main api now order target (Some s) threads) = ps)
       \<and> (CHR ''-'' \<in> set s \<and> map py_int (str_split s CHR ''-'') = [Some start, Some stop]
             \<and> stop - start < 65536
            \<longrightarrow> parse_ports (Some s) = Inr (Some [start..stop])
                \<and> fst (main api now order target (Some s) threads) = [start..stop])"
proof (intro conjI impI)
  assume "CHR ''-'' \<notin> set s \<and> map py_int (str_split s CHR '','') = map Some ps"
  with assms(1) have p: "parse_ports (Some s) = Inr (Some ps)"
    by (simp add: parse_ports_def those_map_Some)
  then show "parse_ports (Some s) = Inr (Some ps)" .
  from p assms(2) show "fst (main api now order target (Some s) threads) = ps"
    by (simp add: main_def scan_host_def ThreadPoolExecutor_def resolved_ports_def Let_def)
next
  assume h: "CHR ''-'' \<in> set s \<and> map py_int (str_split s CHR ''-'') = [Some start, Some stop]
     \<and> stop - start < 65536"
  then have "py_range start (stop + 1) = Inr [start..stop]"
    by (simp add: py_range_def maxsize_def)
  with h assms(1) have p: "parse_ports (Some s) = Inr (Some [start..stop])"
    by (simp add: parse_ports_def)
  then show "parse_ports (Some s) = Inr (Some [start..stop])" .
  from p assms(2) show "fst (main api now order target (Some s) threads) = [start..stop]"
    by (simp add: main_def scan_host_def ThreadPoolExecutor_def resolved_ports_def Let_def)
qed

text \<open>A concrete run that meets the hypotheses.\<close>

theorem out_of_bounds_ports_are_probed_witness:
  "''0,70000'' \<noteq> [] \<and> (0::int) < 50
   \<and> CHR ''-'' \<notin> set ''0,70000''
   \<and> map py_int (str_split ''0,70000'' CHR '','') = map Some [0, 70000]
   \<and> parse_ports (Some ''0,70000'') = Inr (Some [0, 70000])
   \<and> fst (main (cpython_sockets example_platform) ''2026-01-01T00:00:00'' [0, 1] ''127.0.0.1''
            (Some ''0,70000'') 50) = [0, 70000]
   \<and> ''65535-65537'' \<noteq> []
   \<and> CHR ''-'' \<in> set ''65535-65537''
   \<and> map py_int (str_split ''65535-65537'' CHR ''-'') = [Some 65535, Some 65537]
   \<and> (65537::int) - 65535 < 65536
   \<and> parse_ports (Some ''65535-65537'') = Inr (Some [65535, 65536, 65537])
   \<and> fst (main (cpython_sockets example_platform) ''2026-01-01T00:00:00'' [0, 1, 2] ''127.0.0.1''
            (Some ''65535-65537'') 50) = [65535, 65536, 65537]"
proof -
  have a: "''0,70000'' \<noteq> []" by simp
  have t: "(0::int) < 50" by simp
  have b: "CHR ''-'' \<notin> set ''0,70000''" by simp
  have c: "map py_int (str_split ''0,70000'' CHR '','') = map Some [0, 70000]"
    by (simp add: parse_defs)
  have a': "''65535-65537'' \<noteq> []" by simp
  have b': "CHR ''-'' \<in> set ''65535-65537''" by simp
  have c': "map py_int (str_split ''65535-65537'' CHR ''-'') = [Some 65535, Some 65537]"
    by (simp add: parse_defs)
  have u: "[65535..65537] = [65535, 65536, 65537::int]"
    by (simp add: upto_rec1)
  from out_of_bounds_ports_are_probed [OF a t, of "[0, 70000]" _ _ _ _ _ _] 
       out_of_bounds_ports_are_probed [OF a' t, of _ _ _ _ _ 65535 65537] a t b c a' b' c' u
  show ?thesis by simp
qed

text \<open>
  The specification \<^verbatim>\<open>0\<close> is scanned and reported like any other port; for
  \<^verbatim>\<open>8080,70000\<close> probes are submitted for both ports, and the scan fails only when the
  result of the probe of port 70000 is collected.
\<close>

theorem out_of_bounds_spec_is_scanned:
  "main (cpython_sockets example_platform) ''2026-01-01T00:00:00'' [0] ''127.0.0.1'' (Some ''0'') 50
     = ([0], Inr \<lparr> host = ''127.0.0.1'', scan_time = ''2026-01-01T00:00:00'',
                    open_ports = [], closed_ports = 1 \<rparr>)
   \<and> main (cpython_sockets example_platform) ''2026-01-01T00:00:00'' [0, 1] ''127.0.0.1''
        (Some ''8080,70000'') 50
     = ([8080, 70000], Inl OverflowError)"
  by (simp add: main_def parse_defs run_defs)

section \<open>Resolution of the default port specification\<close>


section \<open>The size of the worker pool\<close>

text \<open>
  C7. With a pool size of 0 or less, \<^verbatim>\<open>scan_host\<close> fails with the \<^verbatim>\<open>ValueError\<close> of the
  pool's constructor, and no probe has been submitted.
\<close>

theorem nonpositive_pool_size_fails:
  assumes "threads \<le> 0"
  shows "scan_host api now order hst ports threads = ([], Inl ValueError)"
  using assms by (simp add: scan_host_def ThreadPoolExecutor_def)

text \<open>A concrete run that meets the hypotheses.\<close>

theorem nonpositive_pool_size_fails_witness:
  "(0::int) \<le> 0
   \<and> scan_host (cpython_sockets example_platform) ''2026-01-01T00:00:00'' [0] ''127.0.0.1'' (Some [8080]) 0
       = ([], Inl ValueError)"
proof -
  have h: "(0::int) \<le> 0" by simp
  from nonpositive_pool_size_fails [OF h] show ?thesis by simp
qed

section \<open>The round trip of the persisted report\<close>

text \<open>
  C8. Writing a report as \<^verbatim>\<open>json.dump(results, f, indent=2)\<close> does and parsing the text
  back gives the report again: the same host, the same scan time, the same count of closed
  ports, and the same list of open ports, element by element and in the same order. The
  hypothesis holds of every report that holds Python dictionaries, and of every report
  that \<open>scan_host\<close> returns (\<open>scan_host_distinct_keys\<close>).
\<close>

theorem report_roundtrip:
  assumes "distinct_keys_items (open_ports r)"
  shows "from_structured_form (to_structured_form r) = Some r"
proof -
  from assms have "distinct_keys (results_dict r)"
    by (simp add: results_dict_def)
  then have "json_loads (json_dumps (results_dict r)) = Some (results_dict r)"
    by (rule json_roundtrip)
  then show ?thesis
    by (simp add: from_structured_form_def to_structured_form_def results_of_dict_results_dict)
qed

text \<open>A concrete report that meets the hypothesis.\<close>

theorem report_roundtrip_witness:
  "distinct_keys_items
     [PDict [(''port'', PInt 8080), (''status'', PStr ''open''), (''service'', PStr ''HTTP-Proxy'')],
      PDict [(''port'', PInt 22), (''status'', PStr ''open''), (''service'', PStr ''SSH'')]]
   \<and> from_structured_form (to_structured_form
        \<lparr> host = ''127.0.0.1'', scan_time = ''2026-01-01T00:00:00'',
          open_ports =
            [PDict [(''port'', PInt 8080), (''status'', PStr ''open''), (''service'', PStr ''HTTP-Proxy'')],
             PDict [(''port'', PInt 22), (''status'', PStr ''open''), (''service'', PStr ''SSH'')]],
          closed_ports = 14 \<rparr>)
     = Some \<lparr> host = ''127.0.0.1'', scan_time = ''2026-01-01T00:00:00'',
          open_ports =
            [PDict [(''port'', PInt 8080), (''status'', PStr ''open''), (''service'', PStr ''HTTP-Proxy'')],
             PDict [(''port'', PInt 22), (''status'', PStr ''open''), (''service'', PStr ''SSH'')]],
          closed_ports = 14 \<rparr>"
proof -
  let ?ps = "[PDict [(''port'', PInt 8080), (''status'', PStr ''open''), (''service'', PStr ''HTTP-Proxy'')],
      PDict [(''port'', PInt 22), (''status'', PStr ''open''), (''service'', PStr ''SSH'')]]"
  let ?r = "\<lparr> host = ''127.0.0.1'', scan_time = ''2026-01-01T00:00:00'',
          open_ports = ?ps, closed_ports = 14 \<rparr>"
  have d: "distinct_keys_items (open_ports ?r)" by simp
  from report_roundtrip [OF d] d show ?thesis by simp
qed

section \<open>The fields of an outcome\<close>

text \<open>
  C10. Every outcome that the probe returns is a dictionary with exactly the keys
  \<^verbatim>\<open>port\<close>, \<^verbatim>\<open>status\<close> and \<^verbatim>\<open>service\<close>, in this order, and \<^verbatim>\<open>port\<close> is the port that
  was probed. A closed outcome has the key \<^verbatim>\<open>service\<close> present with the value \<^verbatim>\<open>None\<close>;
  an open one has a string there.
\<close>

theorem outcome_has_three_fields:
  assumes "scan_port api hst port timeout = Inr d"
  shows "\<exists>st sv. d = PDict [(''port'', PInt port), (''status'', st), (''service'', sv)]
           \<and> (st = PStr ''open'' \<and> (\<exists>name. sv = PStr name)
                \<or> st = PStr ''closed'' \<and> sv = PNone)"
  using scan_port_cases [OF assms] by (auto simp: open_outcome_def closed_outcome_def)

text \<open>A concrete run that meets the hypotheses.\<close>

theorem outcome_has_three_fields_witness:
  "scan_port (cpython_sockets example_platform) ''127.0.0.1'' 9999 1
       = Inr (PDict [(''port'', PInt 9999), (''status'', PStr ''closed''), (''service'', PNone)])
   \<and> getitem (PDict [(''port'', PInt 9999), (''status'', PStr ''closed''), (''service'', PNone)])
        ''service'' = Inr PNone"
proof -
  have run: "scan_port (cpython_sockets example_platform) ''127.0.0.1'' 9999 1
       = Inr (PDict [(''port'', PInt 9999), (''status'', PStr ''closed''), (''service'', PNone)])"
    by (simp add: run_defs)
  from outcome_has_three_fields [OF run] run show ?thesis by simp
qed

end
